theory Spec2Isabelle
  imports Main "HOL-Library.Word"
begin

section \<open>The locking-center client: wire codec\<close>

text \<open>
  The client of \<^verbatim>\<open>mutex/mutex.go\<close>. A Go \<^verbatim>\<open>string\<close> is a sequence of bytes and
  \<^verbatim>\<open>len\<close> counts bytes; it is modelled as a \<^typ>\<open>string\<close> (a list of 8-bit characters),
  and \<^verbatim>\<open>[]byte(s)\<close> as the list of its byte values. A \<^verbatim>\<open>*string\<close> is a
  \<^typ>\<open>string option\<close>, \<^verbatim>\<open>nil\<close> being \<^term>\<open>None\<close>. Go's \<^verbatim>\<open>byte\<close> and \<^verbatim>\<open>int8\<close> are
  both 8-bit words: \<^term>\<open>unat\<close> reads the first, \<^term>\<open>sint\<close> the second.
\<close>

type_synonym byte = "8 word"
type_synonym int8 = "8 word"

text \<open>\<^verbatim>\<open>type mutexAction byte\<close> and its four constants.\<close>

type_synonym mutexAction = byte

definition maLock :: mutexAction where
  "maLock = 1"

definition maUnlock :: mutexAction where
  "maUnlock = 2"

definition maResetByKey :: mutexAction where
  "maResetByKey = 3"

definition maResetBySource :: mutexAction where
  "maResetBySource = 4"

text \<open>\<^verbatim>\<open>var queueRetryDuration = time.Millisecond * 500\<close>, a \<^verbatim>\<open>time.Duration\<close> in nanoseconds.\<close>

definition queueRetryDuration :: nat where
  "queueRetryDuration = 1000000 * 500"

text \<open>
  The errors of the package: the one \<^verbatim>\<open>preparePackage\<close> builds for a bad key, the one
  \<^verbatim>\<open>query\<close> builds for a negative acknowledgment, and the errors handed over by
  \<^verbatim>\<open>encoding/binary\<close>, \<^verbatim>\<open>net\<close> and \<^verbatim>\<open>io\<close>.
\<close>

datatype error =
    InvalidKey      \<comment> \<open>\<^verbatim>\<open>"key can not be empty or more than 128 characters"\<close>\<close>
  | RemoteError     \<comment> \<open>\<^verbatim>\<open>"remote server execution error"\<close>\<close>
  | BinaryError     \<comment> \<open>an error of \<^verbatim>\<open>binary.Write\<close>\<close>
  | DialError       \<comment> \<open>an error of \<^verbatim>\<open>net.DialTCP\<close>\<close>
  | WriteError      \<comment> \<open>an error of \<^verbatim>\<open>conn.Write\<close>\<close>
  | ReadError       \<comment> \<open>an error of \<^verbatim>\<open>io.ReadAtLeast\<close>\<close>

text \<open>\<^verbatim>\<open>[]byte(s)\<close>: the bytes of a string.\<close>

definition bytes_of :: "string \<Rightarrow> byte list" where
  "bytes_of s = map of_char s"

text \<open>\<^verbatim>\<open>string(r)\<close>: the string of a byte slice.\<close>

definition string_of :: "byte list \<Rightarrow> string" where
  "string_of bs = map (\<lambda>b. char_of (unat b)) bs"

text \<open>
  \<^verbatim>\<open>binary.Write(buffer, binary.LittleEndian, data)\<close> on a \<^verbatim>\<open>bytes.Buffer\<close>, for the three
  kinds of data the client writes (a \<^verbatim>\<open>mutexAction\<close>, an \<^verbatim>\<open>int8\<close>, a \<^verbatim>\<open>[]byte\<close>): each is of
  fixed size, one byte per element, so the bytes are appended to the buffer and the error is
  \<^verbatim>\<open>nil\<close>. The second argument is the byte image of the data.
\<close>

definition binary_Write :: "byte list \<Rightarrow> byte list \<Rightarrow> error + byte list" where
  "binary_Write buffer data = Inr (buffer @ data)"

text \<open>The first \<^verbatim>\<open>switch action\<close> of \<^verbatim>\<open>preparePackage\<close>: the key size as \<^verbatim>\<open>int8\<close>, then the key.\<close>

definition write_key :: "byte list \<Rightarrow> mutexAction \<Rightarrow> string \<Rightarrow> error + byte list" where
  "write_key buffer action key =
     (if action = maLock \<or> action = maUnlock \<or> action = maResetByKey then
        (let keySize = (of_nat (length key) :: int8) in
         case binary_Write buffer [keySize] of
           Inl err \<Rightarrow> Inl err
         | Inr buffer1 \<Rightarrow> binary_Write buffer1 (bytes_of key))
      else Inr buffer)"

text \<open>
  The second \<^verbatim>\<open>switch action\<close>: the size of the source address as \<^verbatim>\<open>int8\<close> (0 for
  \<^verbatim>\<open>nil\<close>), then the source address when the pointer is not \<^verbatim>\<open>nil\<close>.
\<close>

definition write_source :: "byte list \<Rightarrow> mutexAction \<Rightarrow> string option \<Rightarrow> error + byte list" where
  "write_source buffer action sourceAddr =
     (if action = maLock \<or> action = maResetBySource then
        (let sourceAddrSize =
               (case sourceAddr of None \<Rightarrow> (0 :: int8) | Some s \<Rightarrow> of_nat (length s)) in
         case binary_Write buffer [sourceAddrSize] of
           Inl err \<Rightarrow> Inl err
         | Inr buffer1 \<Rightarrow>
             (case sourceAddr of
                None \<Rightarrow> Inr buffer1
              | Some s \<Rightarrow> binary_Write buffer1 (bytes_of s)))
      else Inr buffer)"

text \<open>
  \<^verbatim>\<open>preparePackage\<close>. In the guard \<^verbatim>\<open>&&\<close> binds tighter than \<^verbatim>\<open>||\<close>. The \<^verbatim>\<open>nil\<close> slice
  returned with an error is not part of the sum: a failure carries no bytes.
\<close>

definition preparePackage :: "mutexAction \<Rightarrow> string \<Rightarrow> string option \<Rightarrow> error + byte list" where
  "preparePackage action key sourceAddr =
     (if (action \<noteq> maResetBySource \<and> length key = 0) \<or> length key > 128 then Inl InvalidKey
      else
        case binary_Write [] [action] of
          Inl err \<Rightarrow> Inl err
        | Inr buffer \<Rightarrow>
            (case write_key buffer action key of
               Inl err \<Rightarrow> Inl err
             | Inr buffer1 \<Rightarrow> write_source buffer1 action sourceAddr))"

text \<open>
  A connection as the client sees it: what \<^verbatim>\<open>conn.Write(payload)\<close> returns (\<^term>\<open>None\<close> is a
  \<^verbatim>\<open>nil\<close> error) and what \<^verbatim>\<open>io.ReadAtLeast(conn, r, 1)\<close> yields for the one-byte slice
  \<^verbatim>\<open>r\<close>: an error, or the byte read.
\<close>

record tcpConn =
  conn_write :: "error option"
  conn_read :: "error + byte"

text \<open>\<^verbatim>\<open>result\<close>: the acknowledgment.\<close>

definition result :: "tcpConn \<Rightarrow> bool" where
  "result conn =
     (case conn_read conn of
        Inl err \<Rightarrow> False
      | Inr r \<Rightarrow> string_of [r] = ''+'')"

section \<open>The client engine\<close>

text \<open>
  What the outside world sees of a call, in order: the connection attempts with their
  outcome, the payloads written, the reads, the closes, the lines printed (format and error)
  and the sleeps (in nanoseconds).
\<close>

datatype event =
    Dial "error option"
  | Write "byte list" "error option"
  | Read "error + byte"
  | Close
  | Printf string error
  | Sleep nat

text \<open>
  \<^verbatim>\<open>query\<close>: encode, write, read the acknowledgment. It returns the error (\<^term>\<open>None\<close> for
  \<^verbatim>\<open>nil\<close>) and what it did on the connection.
\<close>

definition query :: "tcpConn \<Rightarrow> mutexAction \<Rightarrow> string \<Rightarrow> string option \<Rightarrow> error option \<times> event list" where
  "query conn action key sourceAddr =
     (case preparePackage action key sourceAddr of
        Inl err \<Rightarrow> (Some err, [])
      | Inr payload \<Rightarrow>
          (case conn_write conn of
             Some err \<Rightarrow> (Some err, [Write payload (Some err)])
           | None \<Rightarrow>
               if \<not> result conn
               then (Some RemoteError, [Write payload None, Read (conn_read conn)])
               else (None, [Write payload None, Read (conn_read conn)])))"

text \<open>
  The network as a call meets it: for each connection attempt, in order, what
  \<^verbatim>\<open>net.DialTCP\<close> returns, an error or a connection.
\<close>

type_synonym dial = "error + tcpConn"

text \<open>
  The closure \<^verbatim>\<open>query := func() bool { ... }\<close> that \<^verbatim>\<open>Lock\<close>, \<^verbatim>\<open>Unlock\<close>, \<^verbatim>\<open>ResetByKey\<close> and
  \<^verbatim>\<open>ResetBySource\<close> each declare. The four differ in the format of the second message and in
  the arguments of \<^verbatim>\<open>l.query\<close>, which are parameters here. The deferred \<^verbatim>\<open>conn.Close()\<close>
  runs when the closure returns, after the message is printed.
\<close>

definition attempt :: "string \<Rightarrow> mutexAction \<Rightarrow> string \<Rightarrow> string option \<Rightarrow> dial \<Rightarrow> bool \<times> event list" where
  "attempt format action key sourceAddr d =
     (case d of
        Inl err \<Rightarrow> (False, [Dial (Some err), Printf ''ERROR: connection failure: %s\<newline>'' err])
      | Inr conn \<Rightarrow>
          (case query conn action key sourceAddr of
             (Some err, evs) \<Rightarrow> (False, Dial None # evs @ [Printf format err, Close])
           | (None, evs) \<Rightarrow> (True, Dial None # evs @ [Close])))"

text \<open>
  The loop \<^verbatim>\<open>for !query() { time.Sleep(queueRetryDuration) }\<close>. Every turn makes one
  connection attempt, so the list of dial outcomes the network serves is the fuel: the second
  component is \<^term>\<open>Some\<close> of the outcomes left over when the loop has ended, and
  \<^term>\<open>None\<close> when the loop is still running after the last outcome served.
\<close>

fun retry :: "(dial \<Rightarrow> bool \<times> event list) \<Rightarrow> dial list \<Rightarrow> event list \<times> dial list option" where
  "retry q [] = ([], None)"
| "retry q (d # net) =
     (case q d of
        (True, evs) \<Rightarrow> (evs, Some net)
      | (False, evs) \<Rightarrow>
          (case retry q net of (evs', r) \<Rightarrow> (evs @ Sleep queueRetryDuration # evs', r)))"

definition Lock :: "dial list \<Rightarrow> string \<Rightarrow> string option \<Rightarrow> event list \<times> dial list option" where
  "Lock net key sourceAddr =
     retry (attempt ''ERROR: locking error: %s\<newline>'' maLock key sourceAddr) net"

definition Unlock :: "dial list \<Rightarrow> string \<Rightarrow> event list \<times> dial list option" where
  "Unlock net key =
     retry (attempt ''ERROR: unlocking error: %s\<newline>'' maUnlock key None) net"

text \<open>\<^verbatim>\<open>Wait\<close>: \<^verbatim>\<open>l.Lock(key, nil)\<close>, then the deferred \<^verbatim>\<open>l.Unlock(key)\<close> when \<^verbatim>\<open>Wait\<close> returns.\<close>

definition Wait :: "dial list \<Rightarrow> string \<Rightarrow> event list \<times> dial list option" where
  "Wait net key =
     (case Lock net key None of
        (evs, None) \<Rightarrow> (evs, None)
      | (evs, Some net1) \<Rightarrow>
          (case Unlock net1 key of (evs', r) \<Rightarrow> (evs @ evs', r)))"

definition ResetByKey :: "dial list \<Rightarrow> string \<Rightarrow> event list \<times> dial list option" where
  "ResetByKey net key =
     retry (attempt ''ERROR: reseting error: %s\<newline>'' maResetByKey key None) net"

definition ResetBySource :: "dial list \<Rightarrow> string option \<Rightarrow> event list \<times> dial list option" where
  "ResetBySource net sourceAddr =
     retry (attempt ''ERROR: reseting error: %s\<newline>'' maResetBySource '''' sourceAddr) net"

section \<open>The specification's side\<close>

subsection \<open>The frame table\<close>

text \<open>
  The frame layout as the interface description words it, to be compared with what
  \<^const>\<open>preparePackage\<close> builds: one action code; for Lock, Unlock and ResetByKey one
  key-length byte and the key; for Lock and ResetBySource one source-length byte (0 when the
  source is absent) and the source when it is present.
\<close>

definition spec_key_field :: "string \<Rightarrow> byte list" where
  "spec_key_field key = of_nat (length key) # bytes_of key"

definition spec_source_field :: "string option \<Rightarrow> byte list" where
  "spec_source_field sourceAddr =
     (case sourceAddr of None \<Rightarrow> [0] | Some s \<Rightarrow> of_nat (length s) # bytes_of s)"

definition spec_frame :: "mutexAction \<Rightarrow> string \<Rightarrow> string option \<Rightarrow> byte list" where
  "spec_frame action key sourceAddr =
     (if action = maLock then [1] @ spec_key_field key @ spec_source_field sourceAddr
      else if action = maUnlock then [2] @ spec_key_field key
      else if action = maResetByKey then [3] @ spec_key_field key
      else if action = maResetBySource then [4] @ spec_source_field sourceAddr
      else [])"

subsection \<open>Reading a frame back\<close>

text \<open>
  Modelled from the spec: the decoder of a request frame. The party that reads the frames is
  the remote server, which is not in this repository; the three definitions below follow the
  frame table of the interface description, where each length is one byte read as a signed
  8-bit integer (\<^verbatim>\<open>keyLen:int8\<close>, \<^verbatim>\<open>srcLen:int8\<close>) and a source of length 0 is an absent
  source. A negative length, a frame that ends before the announced bytes, trailing bytes and
  an unknown action code are decoding failures.
\<close>

definition spec_read_field :: "byte list \<Rightarrow> (byte list \<times> byte list) option" where
  "spec_read_field bs =
     (case bs of
        [] \<Rightarrow> None
      | n # rest \<Rightarrow>
          if sint n < 0 \<or> length rest < nat (sint n) then None
          else Some (take (nat (sint n)) rest, drop (nat (sint n)) rest))"

definition spec_source :: "byte list \<Rightarrow> string option" where
  "spec_source bs = (if bs = [] then None else Some (string_of bs))"

definition spec_decode :: "byte list \<Rightarrow> (mutexAction \<times> string \<times> string option) option" where
  "spec_decode frame =
     (case frame of
        [] \<Rightarrow> None
      | action # rest \<Rightarrow>
          if action = 1 then
            (case spec_read_field rest of
               None \<Rightarrow> None
             | Some (key, rest1) \<Rightarrow>
                 (case spec_read_field rest1 of
                    None \<Rightarrow> None
                  | Some (src, rest2) \<Rightarrow>
                      if rest2 = [] then Some (maLock, string_of key, spec_source src)
                      else None))
          else if action = 2 \<or> action = 3 then
            (case spec_read_field rest of
               None \<Rightarrow> None
             | Some (key, rest1) \<Rightarrow>
                 if rest1 = [] then Some (action, string_of key, None) else None)
          else if action = 4 then
            (case spec_read_field rest of
               None \<Rightarrow> None
             | Some (src, rest1) \<Rightarrow>
                 if rest1 = [] then Some (action, [], spec_source src) else None)
          else None)"

subsection \<open>Observations on a call\<close>

text \<open>
  A connection attempt that ends in the acknowledgment \<^verbatim>\<open>+\<close>: the dial and the write
  succeed and the byte read is \<^verbatim>\<open>0x2B\<close>.
\<close>

definition acknowledging :: "dial \<Rightarrow> bool" where
  "acknowledging d =
     (case d of
        Inl err \<Rightarrow> False
      | Inr conn \<Rightarrow> conn_write conn = None \<and> conn_read conn = Inr 0x2B)"

text \<open>
  A connection attempt that fails on the transport or by a negative acknowledgment: a connect
  error, a write error, a read failure, or a byte other than \<^verbatim>\<open>+\<close>.
\<close>

definition failing :: "dial \<Rightarrow> bool" where
  "failing d =
     (case d of
        Inl err \<Rightarrow> True
      | Inr conn \<Rightarrow>
          (case conn_write conn of
             Some err \<Rightarrow> True
           | None \<Rightarrow> (case conn_read conn of Inl err \<Rightarrow> True | Inr b \<Rightarrow> b \<noteq> 0x2B)))"

text \<open>The connection attempts and the sleeps of a trace, in their order.\<close>

datatype pace = Attempt | Pause nat

fun pacing :: "event list \<Rightarrow> pace list" where
  "pacing [] = []"
| "pacing (Dial r # evs) = Attempt # pacing evs"
| "pacing (Sleep d # evs) = Pause d # pacing evs"
| "pacing (e # evs) = pacing evs"

text \<open>The payloads of a trace that were written and answered with \<^verbatim>\<open>+\<close>, in their order.\<close>

fun acknowledged :: "event list \<Rightarrow> byte list list" where
  "acknowledged [] = []"
| "acknowledged (Write payload None # Read (Inr b) # evs) =
     (if b = 0x2B then payload # acknowledged evs else acknowledged evs)"
| "acknowledged (e # evs) = acknowledged evs"

section \<open>Bytes, characters and signed lengths\<close>

lemma unat_of_char: "unat (of_char c :: byte) = of_char c"
proof -
  have "(of_char c :: byte) = of_nat (of_char c)"
    by (simp add: of_nat_of_char)
  then have "unat (of_char c :: byte) = (of_char c :: nat) mod 256"
    by (simp add: unat_of_nat)
  then show ?thesis by simp
qed

lemma string_of_bytes_of: "string_of (bytes_of s) = s"
  by (simp add: string_of_def bytes_of_def unat_of_char map_idI)

lemma length_bytes_of: "length (bytes_of s) = length s"
  by (simp add: bytes_of_def)

lemma bytes_of_Nil_iff: "(bytes_of s = []) = (s = [])"
  by (simp add: bytes_of_def)

lemma byte_eq_43: "unat (r :: byte) mod 256 = 43 \<Longrightarrow> r = 43"
proof -
  assume a: "unat r mod 256 = 43"
  have "unat r < 256"
    using unsigned_less [of r, where 'a = nat] by simp
  with a have "unat r = 43" by simp
  then have "of_nat (unat r) = (of_nat 43 :: byte)" by simp
  then show ?thesis by simp
qed

lemma string_of_plus: "(string_of [r] = ''+'') = (r = 0x2B)"
proof
  assume "string_of [r] = ''+''"
  then have "char_of (unat r) = CHR ''+''"
    by (simp add: string_of_def)
  then have "take_bit 8 (unat r) = (of_char CHR ''+'' :: nat)"
    by (simp only: char_of_eq_iff)
  then have "unat r mod 256 = 43"
    by (simp add: take_bit_eq_mod)
  then show "r = 0x2B"
    by (rule byte_eq_43)
next
  assume "r = 0x2B"
  then show "string_of [r] = ''+''"
    by (simp add: string_of_def char_of_eq_iff)
qed

lemma uint_int8_of_nat: "uint (of_nat n :: int8) = int (n mod 256)"
  by (simp add: uint_nat unat_of_nat)

lemma sint_int8_of_nat: "sint (of_nat n :: int8) = (int (n mod 256) + 128) mod 256 - 128"
  by (simp only: sint_uint signed_take_bit_eq_take_bit_shift take_bit_eq_mod uint_int8_of_nat)
    simp

lemma sint_int8_small: "n \<le> 127 \<Longrightarrow> sint (of_nat n :: int8) = int n"
  by (simp add: sint_int8_of_nat)

lemma sint_int8_big: "128 \<le> n \<Longrightarrow> n \<le> 255 \<Longrightarrow> sint (of_nat n :: int8) = int n - 256"
proof -
  assume a: "128 \<le> n" "n \<le> 255"
  have "(int n + 128) mod 256 = int n - 128"
    using a by (simp add: mod_pos_geq)
  then show ?thesis
    using a by (simp add: sint_int8_of_nat)
qed

lemma unat_byte_of_nat: "unat (of_nat n :: byte) = n mod 256"
  by (simp add: unat_of_nat)

section \<open>The frames of \<^const>\<open>preparePackage\<close>\<close>

lemmas action_defs = maLock_def maUnlock_def maResetByKey_def maResetBySource_def

lemma action_distinct:
  "maLock \<noteq> maUnlock" "maLock \<noteq> maResetByKey" "maLock \<noteq> maResetBySource"
  "maUnlock \<noteq> maLock" "maUnlock \<noteq> maResetByKey" "maUnlock \<noteq> maResetBySource"
  "maResetByKey \<noteq> maLock" "maResetByKey \<noteq> maUnlock" "maResetByKey \<noteq> maResetBySource"
  "maResetBySource \<noteq> maLock" "maResetBySource \<noteq> maUnlock"
  "maResetBySource \<noteq> maResetByKey"
  by (simp_all add: action_defs)

lemma preparePackage_Lock:
  "key \<noteq> [] \<Longrightarrow> length key \<le> 128 \<Longrightarrow>
   preparePackage maLock key sourceAddr =
     Inr (1 # of_nat (length key) # bytes_of key @ spec_source_field sourceAddr)"
  by (simp add: preparePackage_def write_key_def write_source_def binary_Write_def
      spec_source_field_def action_defs split: option.splits)

lemma preparePackage_Unlock:
  "key \<noteq> [] \<Longrightarrow> length key \<le> 128 \<Longrightarrow>
   preparePackage maUnlock key sourceAddr = Inr (2 # of_nat (length key) # bytes_of key)"
  by (simp add: preparePackage_def write_key_def write_source_def binary_Write_def action_defs)

lemma preparePackage_ResetByKey:
  "key \<noteq> [] \<Longrightarrow> length key \<le> 128 \<Longrightarrow>
   preparePackage maResetByKey key sourceAddr = Inr (3 # of_nat (length key) # bytes_of key)"
  by (simp add: preparePackage_def write_key_def write_source_def binary_Write_def action_defs)

lemma preparePackage_ResetBySource:
  "length key \<le> 128 \<Longrightarrow>
   preparePackage maResetBySource key sourceAddr = Inr (4 # spec_source_field sourceAddr)"
  by (simp add: preparePackage_def write_key_def write_source_def binary_Write_def
      spec_source_field_def action_defs split: option.splits)

lemma preparePackage_InvalidKey:
  "action \<noteq> maResetBySource \<and> key = [] \<or> 128 < length key \<Longrightarrow>
   preparePackage action key sourceAddr = Inl InvalidKey"
  by (auto simp add: preparePackage_def)

text \<open>
  C3. For Lock, Unlock and ResetByKey, an empty key and a key of more than 128 bytes are
  rejected with the invalid-key error, and an error carries no bytes; ResetBySource with the
  empty key is encoded.
\<close>

theorem preparePackage_rejects_bad_key:
  assumes "action = maLock \<or> action = maUnlock \<or> action = maResetByKey"
    and "key = [] \<or> 128 < length key"
  shows "preparePackage action key sourceAddr = Inl InvalidKey \<and>
         (\<exists>frame. preparePackage maResetBySource [] sourceAddr = Inr frame)"
proof
  have "action \<noteq> maResetBySource"
    using assms(1) by (auto simp add: action_distinct)
  with assms(2) show "preparePackage action key sourceAddr = Inl InvalidKey"
    by (simp add: preparePackage_InvalidKey)
  show "\<exists>frame. preparePackage maResetBySource [] sourceAddr = Inr frame"
    by (simp add: preparePackage_ResetBySource)
qed

theorem preparePackage_rejects_bad_key_witness:
  "preparePackage maUnlock (replicate 129 CHR ''k'') None = Inl InvalidKey \<and>
   preparePackage maLock [] (Some ''10.0.0.1'') = Inl InvalidKey \<and>
   (\<exists>frame. preparePackage maResetBySource [] (Some ''10.0.0.1'') = Inr frame)"
  using preparePackage_rejects_bad_key [of maUnlock "replicate 129 CHR ''k''" None]
    preparePackage_rejects_bad_key [of maLock "[]" "Some ''10.0.0.1''"]
  by simp

text \<open>
  C4. For an action of the four and a key that passes the check (at most 128 bytes, and not
  empty unless the action is ResetBySource), the bytes built are those of the frame table:
  the action code 1, 2, 3 or 4, then the key field for Lock, Unlock and ResetByKey, then the
  source field for Lock and ResetBySource. The key-length byte read as an unsigned byte is
  the length of the key.
\<close>

theorem preparePackage_frame:
  assumes "action = maLock \<or> action = maUnlock \<or> action = maResetByKey \<or>
           action = maResetBySource"
    and "length key \<le> 128"
    and "action \<noteq> maResetBySource \<longrightarrow> key \<noteq> []"
  shows "preparePackage action key sourceAddr = Inr (spec_frame action key sourceAddr) \<and>
         unat (hd (spec_key_field key)) = length key"
proof
  show "preparePackage action key sourceAddr = Inr (spec_frame action key sourceAddr)"
    using assms
    by (auto simp add: spec_frame_def spec_key_field_def preparePackage_Lock
        preparePackage_Unlock preparePackage_ResetByKey preparePackage_ResetBySource
        action_distinct)
  show "unat (hd (spec_key_field key)) = length key"
    using assms(2) by (simp add: spec_key_field_def unat_byte_of_nat)
qed

theorem preparePackage_frame_witness:
  "preparePackage maLock ''key'' (Some ''src'') = Inr [1, 3, 107, 101, 121, 3, 115, 114, 99] \<and>
   preparePackage maUnlock ''key'' None = Inr [2, 3, 107, 101, 121] \<and>
   preparePackage maResetByKey ''key'' None = Inr [3, 3, 107, 101, 121] \<and>
   preparePackage maResetBySource '''' None = Inr [4, 0]"
  using preparePackage_frame [of maLock "''key''" "Some ''src''"]
    preparePackage_frame [of maUnlock "''key''" None]
    preparePackage_frame [of maResetByKey "''key''" None]
    preparePackage_frame [of maResetBySource "''''" None]
  by (simp add: spec_frame_def spec_key_field_def spec_source_field_def bytes_of_def
      action_defs)

text \<open>
  C5. \<^const>\<open>result\<close> is true exactly when a byte was read and that byte is \<^verbatim>\<open>0x2B\<close>: a
  read error and every other byte give false.
\<close>

theorem result_iff_plus: "result conn = (conn_read conn = Inr 0x2B)"
  by (simp add: result_def string_of_plus split: sum.splits)

text \<open>
  C9. For Lock and for ResetBySource the result of encoding with a \<^verbatim>\<open>nil\<close> source is the
  result of encoding with a pointer to the empty string, whatever the key; when the key
  passes the check both are the frame whose source-length byte is 0 and is its last byte.
\<close>

theorem nil_source_is_empty_source:
  "preparePackage maLock key None = preparePackage maLock key (Some '''') \<and>
   preparePackage maResetBySource key None = preparePackage maResetBySource key (Some '''') \<and>
   (key \<noteq> [] \<and> length key \<le> 128 \<longrightarrow>
      preparePackage maLock key (Some '''') =
        Inr (1 # of_nat (length key) # bytes_of key @ [0])) \<and>
   (length key \<le> 128 \<longrightarrow> preparePackage maResetBySource key (Some '''') = Inr [4, 0])"
  by (simp add: preparePackage_def write_key_def write_source_def binary_Write_def
      bytes_of_def action_defs)

theorem nil_source_is_empty_source_witness:
  "preparePackage maLock ''key'' None = Inr [1, 3, 107, 101, 121, 0] \<and>
   preparePackage maLock ''key'' (Some '''') = Inr [1, 3, 107, 101, 121, 0] \<and>
   preparePackage maResetBySource '''' None = Inr [4, 0] \<and>
   preparePackage maResetBySource '''' (Some '''') = Inr [4, 0]"
  using nil_source_is_empty_source [of "''key''"] nil_source_is_empty_source [of "''''"]
  by (simp add: bytes_of_def)

text \<open>
  C10. The length of the source address is not checked. For a Lock whose key passes the
  check and for a ResetBySource, a source address of more than 127 bytes is encoded: the
  source-length byte is the length modulo 256, followed by all the bytes of the source, and
  read as a signed 8-bit integer it is negative when the length is at most 255.
\<close>

theorem source_length_not_validated:
  assumes "127 < length s"
    and "key \<noteq> []"
    and "length key \<le> 128"
  shows "\<exists>sourceAddrSize.
           preparePackage maLock key (Some s) =
             Inr (1 # of_nat (length key) # bytes_of key @ sourceAddrSize # bytes_of s) \<and>
           preparePackage maResetBySource '''' (Some s) =
             Inr (4 # sourceAddrSize # bytes_of s) \<and>
           unat sourceAddrSize = length s mod 256 \<and>
           (length s \<le> 255 \<longrightarrow> sint sourceAddrSize < 0)"
proof (intro exI conjI impI)
  show "preparePackage maLock key (Some s) =
          Inr (1 # of_nat (length key) # bytes_of key @ of_nat (length s) # bytes_of s)"
    using assms by (simp add: preparePackage_Lock spec_source_field_def)
  show "preparePackage maResetBySource '''' (Some s) = Inr (4 # of_nat (length s) # bytes_of s)"
    by (simp add: preparePackage_ResetBySource spec_source_field_def)
  show "unat (of_nat (length s) :: byte) = length s mod 256"
    by (rule unat_byte_of_nat)
  show "sint (of_nat (length s) :: int8) < 0" if "length s \<le> 255"
    using assms(1) that by (simp add: sint_int8_big)
qed

theorem source_length_not_validated_witness:
  "\<exists>sourceAddrSize.
     preparePackage maLock ''key'' (Some (replicate 200 CHR ''s'')) =
       Inr ([1, 3, 107, 101, 121] @ sourceAddrSize # replicate 200 115) \<and>
     preparePackage maResetBySource '''' (Some (replicate 200 CHR ''s'')) =
       Inr (4 # sourceAddrSize # replicate 200 115) \<and>
     sint sourceAddrSize < 0"
  using source_length_not_validated [of "replicate 200 CHR ''s''" "''key''"]
  by (auto simp add: bytes_of_def)

section \<open>Signed key lengths and reading a frame back\<close>

lemma result_eq: "result conn = (conn_read conn = Inr 0x2B)"
  by (simp add: result_def string_of_plus split: sum.splits)

text \<open>
  The key-length byte of an accepted key, read as \<^verbatim>\<open>int8\<close>: the length of the key up to 127
  bytes, and \<open>- 128\<close> for the key of 128 bytes, which the guard lets through.
\<close>

lemma key_length_int8:
  assumes "key \<noteq> []" and "length key \<le> 128"
  shows "sint (of_nat (length key) :: int8) = (if length key = 128 then - 128 else int (length key))"
proof (cases "length key = 128")
  case True
  then show ?thesis by simp
next
  case False
  with assms(2) have "length key \<le> 127" by simp
  then show ?thesis using False by (simp add: sint_int8_small)
qed

text \<open>
  C2. The claim fails at the upper bound: the key of 128 bytes passes the guard of
  \<^const>\<open>preparePackage\<close> and its key-length byte is \<^verbatim>\<open>0x80\<close>, which is \<open>- 128\<close> as a signed
  8-bit integer.
\<close>

theorem key_of_128_bytes_negative_length:
  "preparePackage maUnlock (replicate 128 CHR ''k'') None = Inr (2 # 0x80 # replicate 128 0x6B) \<and>
   sint (0x80 :: int8) = - 128"
  by (simp add: preparePackage_Unlock bytes_of_def)

lemma spec_read_field_bytes:
  assumes "length s \<le> 127"
  shows "spec_read_field (of_nat (length s) # bytes_of s @ rest) = Some (bytes_of s, rest)"
  using assms by (simp add: spec_read_field_def sint_int8_small length_bytes_of)

lemma spec_read_field_zero: "spec_read_field [0] = Some ([], [])"
  by (simp add: spec_read_field_def)

text \<open>
  For a key of 1 to 127 bytes the frame of a Lock without source is read back as the same
  action, key and absent source.
\<close>

lemma spec_decode_Lock_upto_127:
  assumes "key \<noteq> []" and "length key \<le> 127"
  shows "\<exists>frame. preparePackage maLock key None = Inr frame \<and>
                 spec_decode frame = Some (maLock, key, None)"
proof -
  have "preparePackage maLock key None = Inr (1 # of_nat (length key) # bytes_of key @ [0])"
    using assms by (simp add: preparePackage_Lock spec_source_field_def)
  moreover have "spec_decode (1 # of_nat (length key) # bytes_of key @ [0]) =
                 Some (maLock, key, None)"
    using assms(2)
    by (simp add: spec_decode_def spec_read_field_bytes spec_read_field_zero spec_source_def
        string_of_bytes_of)
  ultimately show ?thesis by simp
qed

text \<open>
  C7. The claim fails at the upper bound: the frame of a Lock with the key of 128 bytes and
  no source has the key-length byte \<^verbatim>\<open>0x80\<close>, which the frame table reads as the length
  \<open>- 128\<close>, so the frame is not read back.
\<close>

theorem key_of_128_bytes_not_read_back:
  "preparePackage maLock (replicate 128 CHR ''k'') None =
     Inr (1 # 0x80 # replicate 128 0x6B @ [0]) \<and>
   spec_decode (1 # 0x80 # replicate 128 0x6B @ [0]) = None \<and>
   spec_decode (1 # 0x80 # replicate 128 0x6B @ [0]) \<noteq>
     Some (maLock, replicate 128 CHR ''k'', None)"
  by (simp add: preparePackage_Lock spec_source_field_def bytes_of_def spec_decode_def
      spec_read_field_def)

section \<open>The retry loop\<close>

lemma pacing_append: "pacing (xs @ ys) = pacing xs @ pacing ys"
  by (induction xs rule: pacing.induct) simp_all

lemma pacing_attempt: "pacing (snd (attempt format action key sourceAddr d)) = [Attempt]"
  by (simp add: attempt_def query_def pacing_append split: sum.splits option.splits)

lemma retry_all_fail:
  assumes "\<forall>d\<in>set net. \<not> fst (q d)"
  shows "retry q net = (concat (map (\<lambda>d. snd (q d) @ [Sleep queueRetryDuration]) net), None)"
  using assms
proof (induction net)
  case Nil
  show ?case by simp
next
  case (Cons d net)
  then have "retry q net =
      (concat (map (\<lambda>d. snd (q d) @ [Sleep queueRetryDuration]) net), None)"
    by simp
  moreover from Cons.prems obtain evs where "q d = (False, evs)"
    by (cases "q d") auto
  ultimately show ?case by simp
qed

lemma retry_fail_then_ok:
  assumes "\<forall>d\<in>set fails. \<not> fst (q d)" and "fst (q ok)"
  shows "retry q (fails @ ok # rest) =
     (concat (map (\<lambda>d. snd (q d) @ [Sleep queueRetryDuration]) fails) @ snd (q ok), Some rest)"
  using assms(1)
proof (induction fails)
  case Nil
  from assms(2) obtain evs where "q ok = (True, evs)"
    by (cases "q ok") auto
  then show ?case by simp
next
  case (Cons d fails)
  then have "retry q (fails @ ok # rest) =
     (concat (map (\<lambda>d. snd (q d) @ [Sleep queueRetryDuration]) fails) @ snd (q ok), Some rest)"
    by simp
  moreover from Cons.prems obtain evs where "q d = (False, evs)"
    by (cases "q d") auto
  ultimately show ?case by simp
qed

lemma pacing_failed_attempts:
  "pacing (concat (map (\<lambda>d. snd (attempt format action key sourceAddr d) @ [Sleep t]) net)) =
   concat (replicate (length net) [Attempt, Pause t])"
  by (induction net) (simp_all add: pacing_append pacing_attempt)

lemma attempt_encoding_error:
  assumes "preparePackage action key sourceAddr = Inl err"
  shows "attempt format action key sourceAddr d =
     (False,
      case d of
        Inl e \<Rightarrow> [Dial (Some e), Printf ''ERROR: connection failure: %s\<newline>'' e]
      | Inr conn \<Rightarrow> [Dial None, Printf format err, Close])"
  using assms by (simp add: attempt_def query_def split: sum.splits)

lemma bad_key_loop:
  assumes "preparePackage action key sourceAddr = Inl err"
  shows "snd (retry (attempt format action key sourceAddr) net) = None"
    and "pacing (fst (retry (attempt format action key sourceAddr) net)) =
         concat (replicate (length net) [Attempt, Pause queueRetryDuration])"
    and "Write payload r \<notin> set (fst (retry (attempt format action key sourceAddr) net))"
proof -
  have fail: "\<forall>d\<in>set net. \<not> fst (attempt format action key sourceAddr d)"
    using assms by (simp add: attempt_encoding_error)
  note trace = retry_all_fail [OF fail]
  show "snd (retry (attempt format action key sourceAddr) net) = None"
    by (simp add: trace)
  show "pacing (fst (retry (attempt format action key sourceAddr) net)) =
        concat (replicate (length net) [Attempt, Pause queueRetryDuration])"
    by (simp add: trace pacing_failed_attempts)
  show "Write payload r \<notin> set (fst (retry (attempt format action key sourceAddr) net))"
    using assms by (auto simp add: trace attempt_encoding_error split: sum.splits)
qed

text \<open>
  C1, as the code has it. With an empty key or a key of more than 128 bytes, \<^const>\<open>query\<close>
  returns the invalid-key error before anything is written, but \<^const>\<open>Lock\<close>,
  \<^const>\<open>Unlock\<close> and \<^const>\<open>ResetByKey\<close> have no error result to hand it to: the attempt
  counts as failed, the loop sleeps and dials again, for as many connection attempts as the
  network serves, and the call never returns.
\<close>

theorem malformed_key_is_retried:
  assumes "key = [] \<or> 128 < length key"
  shows "query conn maLock key sourceAddr = (Some InvalidKey, []) \<and>
         query conn maUnlock key None = (Some InvalidKey, []) \<and>
         query conn maResetByKey key None = (Some InvalidKey, []) \<and>
         snd (Lock net key sourceAddr) = None \<and>
         snd (Unlock net key) = None \<and>
         snd (ResetByKey net key) = None \<and>
         pacing (fst (Lock net key sourceAddr)) =
           concat (replicate (length net) [Attempt, Pause queueRetryDuration]) \<and>
         pacing (fst (Unlock net key)) =
           concat (replicate (length net) [Attempt, Pause queueRetryDuration]) \<and>
         pacing (fst (ResetByKey net key)) =
           concat (replicate (length net) [Attempt, Pause queueRetryDuration]) \<and>
         Write payload r \<notin> set (fst (Lock net key sourceAddr)) \<and>
         Write payload r \<notin> set (fst (Unlock net key)) \<and>
         Write payload r \<notin> set (fst (ResetByKey net key))"
proof -
  have l: "preparePackage maLock key sourceAddr = Inl InvalidKey"
    using assms by (simp add: preparePackage_InvalidKey action_distinct)
  have u: "preparePackage maUnlock key None = Inl InvalidKey"
    using assms by (simp add: preparePackage_InvalidKey action_distinct)
  have k: "preparePackage maResetByKey key None = Inl InvalidKey"
    using assms by (simp add: preparePackage_InvalidKey action_distinct)
  show ?thesis
    by (simp add: Lock_def Unlock_def ResetByKey_def query_def l u k
        bad_key_loop [OF l] bad_key_loop [OF u] bad_key_loop [OF k])
qed

theorem malformed_key_is_retried_witness:
  "snd (Lock [Inl DialError, Inr \<lparr>conn_write = None, conn_read = Inr 0x2B\<rparr>] '''' None) = None \<and>
   pacing (fst (Lock [Inl DialError, Inr \<lparr>conn_write = None, conn_read = Inr 0x2B\<rparr>] '''' None)) =
     [Attempt, Pause 500000000, Attempt, Pause 500000000] \<and>
   snd (Unlock [Inr \<lparr>conn_write = None, conn_read = Inr 0x2B\<rparr>] (replicate 129 CHR ''k'')) = None"
  using malformed_key_is_retried
      [of "''''" _ _ "[Inl DialError, Inr \<lparr>conn_write = None, conn_read = Inr 0x2B\<rparr>]"]
    malformed_key_is_retried
      [of "replicate 129 CHR ''k''" _ _ "[Inr \<lparr>conn_write = None, conn_read = Inr 0x2B\<rparr>]"]
  by (simp add: queueRetryDuration_def)

text \<open>
  C1, as the claim states it, fails: a Lock with the empty key, on a network whose server
  would acknowledge, is not ended by the encoding error. The error is printed, the connection
  closed, and after the sleep the loop dials again; when the two connections served are used
  up the call has not returned.
\<close>

theorem malformed_key_counterexample:
  "Lock [Inr \<lparr>conn_write = None, conn_read = Inr 0x2B\<rparr>,
         Inr \<lparr>conn_write = None, conn_read = Inr 0x2B\<rparr>] '''' None =
     ([Dial None, Printf ''ERROR: locking error: %s\<newline>'' InvalidKey, Close, Sleep 500000000,
       Dial None, Printf ''ERROR: locking error: %s\<newline>'' InvalidKey, Close, Sleep 500000000],
      None)"
  by (simp add: Lock_def attempt_def query_def preparePackage_def queueRetryDuration_def
      action_defs)

section \<open>Failing attempts, then an acknowledgment\<close>

lemma attempt_failing:
  assumes "failing d"
  shows "\<not> fst (attempt format action key sourceAddr d)"
  using assms
  by (auto simp add: failing_def attempt_def query_def result_eq
      split: sum.splits option.splits)

lemma attempt_acknowledging:
  assumes "preparePackage action key sourceAddr = Inr payload" and "acknowledging d"
  shows "attempt format action key sourceAddr d =
     (True, [Dial None, Write payload None, Read (Inr 0x2B), Close])"
  using assms
  by (auto simp add: acknowledging_def attempt_def query_def result_eq split: sum.splits)

lemma Lock_frame:
  assumes "key \<noteq> []" and "length key \<le> 128"
  shows "preparePackage maLock key sourceAddr = Inr (spec_frame maLock key sourceAddr)"
  using assms by (simp add: preparePackage_Lock spec_frame_def spec_key_field_def)

lemma Unlock_frame:
  assumes "key \<noteq> []" and "length key \<le> 128"
  shows "preparePackage maUnlock key sourceAddr = Inr (spec_frame maUnlock key sourceAddr)"
  using assms
  by (simp add: preparePackage_Unlock spec_frame_def spec_key_field_def action_distinct)

text \<open>
  C6. Let the key pass the check. If the first \<open>N\<close> connection attempts fail (connect error,
  write error, read failure or a byte other than \<^verbatim>\<open>+\<close>) and the next one is acknowledged,
  then \<^const>\<open>Lock\<close> returns, leaving the rest of the network untouched; its trace has
  \<open>N + 1\<close> connection attempts, a sleep of the retry interval after each of the first \<open>N\<close>
  and none after the last, and ends with the acknowledged exchange and the close.
\<close>

theorem Lock_returns_after_failures:
  assumes "key \<noteq> []" and "length key \<le> 128"
    and "\<forall>d\<in>set fails. failing d"
    and "acknowledging ok"
  shows "snd (Lock (fails @ ok # rest) key sourceAddr) = Some rest \<and>
         pacing (fst (Lock (fails @ ok # rest) key sourceAddr)) =
           concat (replicate (length fails) [Attempt, Pause queueRetryDuration]) @ [Attempt] \<and>
         length (filter (\<lambda>p. p = Attempt) (pacing (fst (Lock (fails @ ok # rest) key sourceAddr)))) =
           length fails + 1 \<and>
         (\<exists>evs. fst (Lock (fails @ ok # rest) key sourceAddr) =
            evs @ [Dial None, Write (spec_frame maLock key sourceAddr) None, Read (Inr 0x2B),
                   Close])"
proof -
  let ?q = "attempt ''ERROR: locking error: %s\<newline>'' maLock key sourceAddr"
  let ?evs = "concat (map (\<lambda>d. snd (?q d) @ [Sleep queueRetryDuration]) fails)"
  let ?last = "[Dial None, Write (spec_frame maLock key sourceAddr) None, Read (Inr 0x2B), Close]"
  have last: "?q ok = (True, ?last)"
    using Lock_frame [OF assms(1,2)] assms(4) by (rule attempt_acknowledging)
  have "\<forall>d\<in>set fails. \<not> fst (?q d)"
    using assms(3) by (simp add: attempt_failing)
  moreover have "fst (?q ok)"
    by (simp add: last)
  ultimately have "retry ?q (fails @ ok # rest) = (?evs @ snd (?q ok), Some rest)"
    by (rule retry_fail_then_ok)
  then have trace: "Lock (fails @ ok # rest) key sourceAddr = (?evs @ ?last, Some rest)"
    by (simp add: Lock_def last)
  have pace: "pacing (?evs @ ?last) =
      concat (replicate (length fails) [Attempt, Pause queueRetryDuration]) @ [Attempt]"
    by (simp add: pacing_append pacing_failed_attempts)
  have count: "length (filter (\<lambda>p. p = Attempt)
      (concat (replicate n [Attempt, Pause queueRetryDuration]) @ [Attempt])) = n + 1" for n
    by (induction n) simp_all
  show ?thesis
    by (simp only: trace fst_conv snd_conv pace count) blast
qed

theorem Lock_returns_after_failures_witness:
  "snd (Lock [Inl DialError,
              Inr \<lparr>conn_write = Some WriteError, conn_read = Inr 0x2B\<rparr>,
              Inr \<lparr>conn_write = None, conn_read = Inl ReadError\<rparr>,
              Inr \<lparr>conn_write = None, conn_read = Inr 0x2D\<rparr>,
              Inr \<lparr>conn_write = None, conn_read = Inr 0x2B\<rparr>,
              Inl DialError] ''key'' None) = Some [Inl DialError] \<and>
   pacing (fst (Lock [Inl DialError,
              Inr \<lparr>conn_write = Some WriteError, conn_read = Inr 0x2B\<rparr>,
              Inr \<lparr>conn_write = None, conn_read = Inl ReadError\<rparr>,
              Inr \<lparr>conn_write = None, conn_read = Inr 0x2D\<rparr>,
              Inr \<lparr>conn_write = None, conn_read = Inr 0x2B\<rparr>,
              Inl DialError] ''key'' None)) =
     [Attempt, Pause 500000000, Attempt, Pause 500000000, Attempt, Pause 500000000,
      Attempt, Pause 500000000, Attempt]"
  using Lock_returns_after_failures
      [of "''key''"
          "[Inl DialError,
            Inr \<lparr>conn_write = Some WriteError, conn_read = Inr 0x2B\<rparr>,
            Inr \<lparr>conn_write = None, conn_read = Inl ReadError\<rparr>,
            Inr \<lparr>conn_write = None, conn_read = Inr 0x2D\<rparr>]"
          "Inr \<lparr>conn_write = None, conn_read = Inr 0x2B\<rparr>"
          "[Inl DialError]" None]
  by (simp add: failing_def acknowledging_def queueRetryDuration_def)

section \<open>Wait\<close>

lemma acknowledged_negative:
  assumes "r \<noteq> Inr 0x2B"
  shows "acknowledged (Write payload None # Read r # evs) = acknowledged evs"
  using assms by (cases r) simp_all

lemma acknowledged_attempt_False:
  assumes "attempt format action key sourceAddr d = (False, evs)"
  shows "acknowledged (evs @ later) = acknowledged later"
  using assms
  by (auto simp add: attempt_def query_def result_eq acknowledged_negative
      split: sum.splits option.splits if_splits)

lemma acknowledged_attempt_True:
  assumes "attempt format action key sourceAddr d = (True, evs)"
  shows "\<exists>payload. preparePackage action key sourceAddr = Inr payload \<and>
                   acknowledged (evs @ later) = payload # acknowledged later"
  using assms
  by (auto simp add: attempt_def query_def result_eq split: sum.splits option.splits if_splits)

lemma retry_acknowledged:
  assumes "retry (attempt format action key sourceAddr) net = (evs, Some rest)"
  shows "\<exists>payload. preparePackage action key sourceAddr = Inr payload \<and>
                   acknowledged (evs @ later) = payload # acknowledged later"
  using assms
proof (induction net arbitrary: evs)
  case Nil
  then show ?case by simp
next
  case (Cons d net)
  obtain b evs1 where a: "attempt format action key sourceAddr d = (b, evs1)"
    by (cases "attempt format action key sourceAddr d")
  show ?case
  proof (cases b)
    case True
    with a Cons.prems have "evs = evs1" by simp
    with a True show ?thesis by (simp add: acknowledged_attempt_True)
  next
    case False
    obtain evs2 r where r: "retry (attempt format action key sourceAddr) net = (evs2, r)"
      by (cases "retry (attempt format action key sourceAddr) net")
    with a False Cons.prems have e: "evs = evs1 @ Sleep queueRetryDuration # evs2" "r = Some rest"
      by simp_all
    from r e(2) Cons.IH obtain payload where
      p: "preparePackage action key sourceAddr = Inr payload"
         "acknowledged (evs2 @ later) = payload # acknowledged later"
      by blast
    have "acknowledged (evs @ later) = acknowledged (Sleep queueRetryDuration # evs2 @ later)"
      using a False e(1) acknowledged_attempt_False [of format action key sourceAddr d evs1]
      by simp
    with p show ?thesis by simp
  qed
qed

lemma accepted_Lock_frame:
  assumes "preparePackage maLock key sourceAddr = Inr payload"
  shows "payload = spec_frame maLock key sourceAddr"
proof -
  have "key \<noteq> [] \<and> length key \<le> 128"
    using assms by (auto simp add: preparePackage_def action_distinct split: if_splits)
  then show ?thesis using assms Lock_frame [of key sourceAddr] by simp
qed

lemma accepted_Unlock_frame:
  assumes "preparePackage maUnlock key sourceAddr = Inr payload"
  shows "payload = spec_frame maUnlock key sourceAddr"
proof -
  have "key \<noteq> [] \<and> length key \<le> 128"
    using assms by (auto simp add: preparePackage_def action_distinct split: if_splits)
  then show ?thesis using assms Unlock_frame [of key sourceAddr] by simp
qed

text \<open>
  C8. \<^const>\<open>Wait\<close> is one \<^const>\<open>Lock\<close> of the key without source followed by one
  \<^const>\<open>Unlock\<close> of the key. Once the Lock has returned, the Unlock is run on what is left of
  the network, with nothing in between; and when \<^const>\<open>Wait\<close> returns, its trace is the
  trace of that Lock followed by the trace of that Unlock, in which exactly two requests were
  acknowledged: first the Lock frame of the key, then the Unlock frame of the key.
\<close>

theorem Wait_locks_then_unlocks:
  "(Lock net key None = (evsL, Some net1) \<longrightarrow>
      Wait net key = (evsL @ fst (Unlock net1 key), snd (Unlock net1 key))) \<and>
   (Wait net key = (evs, Some rest) \<longrightarrow>
      (\<exists>evsL net1 evsU.
         Lock net key None = (evsL, Some net1) \<and>
         Unlock net1 key = (evsU, Some rest) \<and>
         evs = evsL @ evsU \<and>
         acknowledged evsL = [spec_frame maLock key None] \<and>
         acknowledged evsU = [spec_frame maUnlock key None] \<and>
         acknowledged evs = [spec_frame maLock key None, spec_frame maUnlock key None]))"
proof (intro conjI impI)
  assume "Lock net key None = (evsL, Some net1)"
  then show "Wait net key = (evsL @ fst (Unlock net1 key), snd (Unlock net1 key))"
    by (simp add: Wait_def split: prod.splits)
next
  assume w: "Wait net key = (evs, Some rest)"
  obtain evsL rL where l: "Lock net key None = (evsL, rL)"
    by (cases "Lock net key None")
  with w obtain net1 where rL: "rL = Some net1"
    by (cases rL) (simp_all add: Wait_def)
  obtain evsU rU where u: "Unlock net1 key = (evsU, rU)"
    by (cases "Unlock net1 key")
  from w l rL u have e: "evs = evsL @ evsU" "rU = Some rest"
    by (simp_all add: Wait_def)
  have ackL: "acknowledged (evsL @ later) = spec_frame maLock key None # acknowledged later"
    for later
    using retry_acknowledged [of _ maLock key None net evsL net1 later] l rL
      accepted_Lock_frame [of key None]
    by (auto simp add: Lock_def)
  have ackU: "acknowledged (evsU @ later) = spec_frame maUnlock key None # acknowledged later"
    for later
    using retry_acknowledged [of _ maUnlock key None net1 evsU rest later] u e(2)
      accepted_Unlock_frame [of key None]
    by (auto simp add: Unlock_def)
  have "acknowledged evsL = [spec_frame maLock key None]"
    using ackL [of "[]"] by simp
  moreover have "acknowledged evsU = [spec_frame maUnlock key None]"
    using ackU [of "[]"] by simp
  moreover have "acknowledged evs = [spec_frame maLock key None, spec_frame maUnlock key None]"
    using ackL [of evsU] ackU [of "[]"] e(1) by simp
  ultimately show "\<exists>evsL net1 evsU.
         Lock net key None = (evsL, Some net1) \<and>
         Unlock net1 key = (evsU, Some rest) \<and>
         evs = evsL @ evsU \<and>
         acknowledged evsL = [spec_frame maLock key None] \<and>
         acknowledged evsU = [spec_frame maUnlock key None] \<and>
         acknowledged evs = [spec_frame maLock key None, spec_frame maUnlock key None]"
    using l rL u e by blast
qed

theorem Wait_locks_then_unlocks_witness:
  "snd (Wait [Inl DialError,
              Inr \<lparr>conn_write = None, conn_read = Inr 0x2B\<rparr>,
              Inr \<lparr>conn_write = None, conn_read = Inr 0x2D\<rparr>,
              Inr \<lparr>conn_write = None, conn_read = Inr 0x2B\<rparr>,
              Inl DialError] ''k'') = Some [Inl DialError] \<and>
   acknowledged (fst (Wait [Inl DialError,
              Inr \<lparr>conn_write = None, conn_read = Inr 0x2B\<rparr>,
              Inr \<lparr>conn_write = None, conn_read = Inr 0x2D\<rparr>,
              Inr \<lparr>conn_write = None, conn_read = Inr 0x2B\<rparr>,
              Inl DialError] ''k'')) = [[1, 1, 107, 0], [2, 1, 107]]"
proof -
  let ?net = "[Inl DialError,
               Inr \<lparr>conn_write = None, conn_read = Inr 0x2B\<rparr>,
               Inr \<lparr>conn_write = None, conn_read = Inr 0x2D\<rparr>,
               Inr \<lparr>conn_write = None, conn_read = Inr 0x2B\<rparr>,
               Inl DialError]"
  have s: "snd (Wait ?net ''k'') = Some [Inl DialError]"
    by (simp add: Wait_def Lock_def Unlock_def attempt_def query_def preparePackage_def
        write_key_def write_source_def binary_Write_def result_eq action_defs)
  then have "Wait ?net ''k'' = (fst (Wait ?net ''k''), Some [Inl DialError])"
    by (metis prod.collapse)
  with Wait_locks_then_unlocks [of ?net "''k''" _ _ "fst (Wait ?net ''k'')" "[Inl DialError]"]
  have "acknowledged (fst (Wait ?net ''k'')) =
        [spec_frame maLock ''k'' None, spec_frame maUnlock ''k'' None]"
    by blast
  then have "acknowledged (fst (Wait ?net ''k'')) = [[1, 1, 107, 0], [2, 1, 107]]"
    by (simp add: spec_frame_def spec_key_field_def spec_source_field_def bytes_of_def
        action_defs)
  with s show ?thesis by (rule conjI)
qed

text \<open>
  \<^const>\<open>Wait\<close> returns whenever the network serves an acknowledgment to the Lock and, after
  it, one to the Unlock, whatever failing attempts come before each.
\<close>

lemma Wait_returns:
  assumes "key \<noteq> []" and "length key \<le> 128"
    and "\<forall>d\<in>set fails1. failing d" and "acknowledging ok1"
    and "\<forall>d\<in>set fails2. failing d" and "acknowledging ok2"
  shows "snd (Wait (fails1 @ ok1 # fails2 @ ok2 # rest) key) = Some rest"
proof -
  let ?l = "attempt ''ERROR: locking error: %s\<newline>'' maLock key None"
  let ?u = "attempt ''ERROR: unlocking error: %s\<newline>'' maUnlock key None"
  have "\<forall>d\<in>set fails1. \<not> fst (?l d)"
    using assms(3) by (simp add: attempt_failing)
  moreover have "fst (?l ok1)"
    using attempt_acknowledging [OF Lock_frame [OF assms(1,2)] assms(4)] by simp
  ultimately have l: "snd (retry ?l (fails1 @ ok1 # fails2 @ ok2 # rest)) =
      Some (fails2 @ ok2 # rest)"
    by (simp add: retry_fail_then_ok)
  have "\<forall>d\<in>set fails2. \<not> fst (?u d)"
    using assms(5) by (simp add: attempt_failing)
  moreover have "fst (?u ok2)"
    using attempt_acknowledging [OF Unlock_frame [OF assms(1,2)] assms(6)] by simp
  ultimately have u: "snd (retry ?u (fails2 @ ok2 # rest)) = Some rest"
    by (simp add: retry_fail_then_ok)
  from l u show ?thesis
    by (auto simp add: Wait_def Lock_def Unlock_def split: prod.splits option.splits)
qed

end
